theory Spec2Isabelle
  imports Main
begin

section \<open>Python built-ins the decoder relies on\<close>

text \<open>
  The decoder is Python. Its strings are modelled as \<open>string\<close>, one \<open>char\<close> per code
  point below 256 (the upstream JTAG decoder only ever produces the characters 0 and 1).
  Every exception the source can raise is a value of \<open>error\<close>.
\<close>

datatype error = IndexError | ValueError | KeyError | TypeError | AttributeError

text \<open>
  \<^verbatim>\<open>int(c)\<close> for a one-character string \<open>c\<close>: a decimal digit gives its value, any other
  character raises ValueError (a lone sign, underscore or blank is no literal).
\<close>

definition int_char :: "char \<Rightarrow> nat option" where
  "int_char c = map_of
     [(CHR ''0'', 0), (CHR ''1'', 1), (CHR ''2'', 2), (CHR ''3'', 3), (CHR ''4'', 4),
      (CHR ''5'', 5), (CHR ''6'', 6), (CHR ''7'', 7), (CHR ''8'', 8), (CHR ''9'', 9)] c"

text \<open>
  \<^verbatim>\<open>int(f'0b{s}', 2)\<close>: after the prefix Python accepts one optional underscore, then
  binary digits separated by single underscores, then trailing blanks; at least one
  digit is required. The digits are accumulated most-significant first.
\<close>

definition py_isspace :: "char \<Rightarrow> bool" where
  "py_isspace c = (c \<in> set [CHR 0x09, CHR 0x0A, CHR 0x0B, CHR 0x0C, CHR 0x0D, CHR 0x20,
                             CHR 0x85, CHR 0xA0])"

definition is_bit :: "char \<Rightarrow> bool" where
  "is_bit c = (c = CHR ''0'' \<or> c = CHR ''1'')"

definition bit_val :: "char \<Rightarrow> nat" where
  "bit_val c = (if c = CHR ''1'' then 1 else 0)"

fun bin_digits :: "string \<Rightarrow> nat \<Rightarrow> nat option" where
  "bin_digits [] acc = Some acc"
| "bin_digits (c # cs) acc =
     (if is_bit c then bin_digits cs (2 * acc + bit_val c)
      else if c = CHR ''_'' then
        (case cs of [] \<Rightarrow> None
         | d # ds \<Rightarrow> if is_bit d then bin_digits cs acc else None)
      else None)"

definition int_0b :: "string \<Rightarrow> nat option" where
  "int_0b s =
     (let t = rev (dropWhile py_isspace (rev s));
          u = (case t of [] \<Rightarrow> [] | c # cs \<Rightarrow> if c = CHR ''_'' then cs else t)
      in case u of [] \<Rightarrow> None
         | c # cs \<Rightarrow> if is_bit c then bin_digits u 0 else None)"

text \<open>\<^verbatim>\<open>sum(int(bit) for bit in s)\<close>: the first character that is no digit raises.\<close>

fun sum_int_chars :: "string \<Rightarrow> nat option" where
  "sum_int_chars [] = Some 0"
| "sum_int_chars (c # cs) =
     (case int_char c of None \<Rightarrow> None
      | Some n \<Rightarrow> (case sum_int_chars cs of None \<Rightarrow> None | Some m \<Rightarrow> Some (n + m)))"

text \<open>
  A slice \<^verbatim>\<open>xs[i:j]\<close>: a negative bound counts from the end, and every bound is clamped
  into the sequence, so a slice never raises.
\<close>

definition slice_bound :: "nat \<Rightarrow> int \<Rightarrow> nat" where
  "slice_bound n i = (if i < 0 then nat (max 0 (int n + i)) else min n (nat i))"

definition py_slice :: "'a list \<Rightarrow> int \<Rightarrow> int \<Rightarrow> 'a list" where
  "py_slice xs i j =
     (let a = slice_bound (length xs) i; b = slice_bound (length xs) j
      in take (b - a) (drop a xs))"

text \<open>
  The format specs \<^verbatim>\<open>#x\<close> (prefix 0x, lower-case digits) and \<^verbatim>\<open>#04x\<close> (the same,
  zero-padded after the prefix to four characters in all), and \<^verbatim>\<open>str\<close> of a
  non-negative integer.
\<close>

definition hex_digit :: "nat \<Rightarrow> char" where
  "hex_digit n = ''0123456789abcdef'' ! n"

function hex_digits :: "nat \<Rightarrow> string" where
  "hex_digits n = (if n < 16 then [hex_digit n] else hex_digits (n div 16) @ [hex_digit (n mod 16)])"
  by pat_completeness auto
termination
  by (relation "measure id") auto

declare hex_digits.simps [simp del]

definition format_hex :: "nat \<Rightarrow> string" where
  "format_hex n = ''0x'' @ hex_digits n"

definition format_04x :: "nat \<Rightarrow> string" where
  "format_04x n = (let h = hex_digits n in ''0x'' @ replicate (2 - length h) CHR ''0'' @ h)"

function dec_digits :: "nat \<Rightarrow> string" where
  "dec_digits n = (if n < 10 then [hex_digit n] else dec_digits (n div 10) @ [hex_digit (n mod 10)])"
  by pat_completeness auto
termination
  by (relation "measure id") auto

declare dec_digits.simps [simp del]

text \<open>\<^verbatim>\<open>x in s\<close> on strings is the substring test; \<^verbatim>\<open>s.lower()\<close> on ASCII letters.\<close>

fun str_in :: "string \<Rightarrow> string \<Rightarrow> bool" where
  "str_in xs [] = (xs = [])"
| "str_in xs (y # ys) = (take (length xs) (y # ys) = xs \<or> str_in xs ys)"

definition lower_char :: "char \<Rightarrow> char" where
  "lower_char c =
     (case map_of (zip ''ABCDEFGHIJKLMNOPQRSTUVWXYZ'' ''abcdefghijklmnopqrstuvwxyz'') c of
        None \<Rightarrow> c | Some l \<Rightarrow> l)"

definition lower :: "string \<Rightarrow> string" where
  "lower s = map lower_char s"

section \<open>Lookup tables\<close>

definition ir :: "string \<rightharpoonup> string \<times> nat" where
  "ir = map_of [(''0011'', (''IDCODE'', 32)), (''0111'', (''PDICOM'', 9)), (''1111'', (''BYPASS'', 1))]"

definition jedec_id :: "nat \<rightharpoonup> string" where
  "jedec_id = map_of [(0x1f, ''Atmel'')]"

definition avr_idcode :: "nat \<rightharpoonup> string" where
  "avr_idcode = map_of
     [(0x9642, ''ATXMega64A3U''), (0x9742, ''ATXMega128A3U''),
      (0x9744, ''ATXMega192A3U''), (0x9842, ''ATXMega256A3U'')]"

section \<open>IDCODE decoding\<close>

text \<open>
  \<^verbatim>\<open>decode_device_id_code(bits)\<close> returns the tuple (id_hex, manufacturer, version, part);
  each of the four \<^verbatim>\<open>int\<close> calls may raise ValueError.
\<close>

definition decode_device_id_code :: "string \<Rightarrow> error + (string \<times> string \<times> nat \<times> string)" where
  "decode_device_id_code bits =
     (case int_0b (py_slice bits (-32) (-28)) of None \<Rightarrow> Inl ValueError | Some version \<Rightarrow>
     (case int_0b (py_slice bits (-28) (-12)) of None \<Rightarrow> Inl ValueError | Some part \<Rightarrow>
      let part' = (case avr_idcode part of Some name \<Rightarrow> name | None \<Rightarrow> format_hex part) in
     (case int_0b (py_slice bits (-12) (-1)) of None \<Rightarrow> Inl ValueError | Some m \<Rightarrow>
      let manufacturer = (case jedec_id m of Some name \<Rightarrow> name | None \<Rightarrow> ''INVALID'') in
     (case int_0b bits of None \<Rightarrow> Inl ValueError | Some v \<Rightarrow>
      Inr (format_hex v, manufacturer, version, part')))))"

section \<open>Annotation classes\<close>

named_theorems ann_defs \<open>numeric values of the annotation classes\<close>

definition JTAG_ITEM :: nat where [ann_defs]: "JTAG_ITEM = 0"
definition JTAG_FIELD :: nat where [ann_defs]: "JTAG_FIELD = 1"
definition JTAG_COMMAND :: nat where [ann_defs]: "JTAG_COMMAND = 2"
definition JTAG_WARNING :: nat where [ann_defs]: "JTAG_WARNING = 3"
definition DATA_IN :: nat where [ann_defs]: "DATA_IN = 4"
definition PARITY_IN_OK :: nat where [ann_defs]: "PARITY_IN_OK = 5"
definition PARITY_IN_ERR :: nat where [ann_defs]: "PARITY_IN_ERR = 6"
definition DATA_OUT :: nat where [ann_defs]: "DATA_OUT = 7"
definition PARITY_OUT_OK :: nat where [ann_defs]: "PARITY_OUT_OK = 8"
definition PARITY_OUT_ERR :: nat where [ann_defs]: "PARITY_OUT_ERR = 9"
definition BREAK :: nat where [ann_defs]: "BREAK = 10"
definition OPCODE :: nat where [ann_defs]: "OPCODE = 11"
definition DATA_PROG :: nat where [ann_defs]: "DATA_PROG = 12"
definition DATA_DEV :: nat where [ann_defs]: "DATA_DEV = 13"
definition PDI_BREAK :: nat where [ann_defs]: "PDI_BREAK = 14"
definition ENABLE :: nat where [ann_defs]: "ENABLE = 15"
definition DISABLE :: nat where [ann_defs]: "DISABLE = 16"
definition COMMAND :: nat where [ann_defs]: "COMMAND = 17"
definition PARITY_OK :: nat where [ann_defs]: "PARITY_OK = 0"
definition PARITY_ERR :: nat where [ann_defs]: "PARITY_ERR = 1"

section \<open>Decoder state and annotation output\<close>

text \<open>
  An annotation handed to the host is (start sample, end sample, class, texts). The
  host's sink is the list \<open>emitted\<close>, oldest first. \<open>samplenums\<close> is \<^verbatim>\<open>None\<close> until the
  first shift event. A call that raises keeps the decoder as it was when it raised, so
  the error carries that decoder.
\<close>

type_synonym annotation = "int \<times> int \<times> nat \<times> string list"

record decoder =
  state :: string
  samplenums :: "(int \<times> int) list option"
  ss :: int
  es :: int
  emitted :: "annotation list"

type_synonym 'a result = "(error \<times> decoder) + ('a \<times> decoder)"

definition then_do :: "'a result \<Rightarrow> ('a \<Rightarrow> decoder \<Rightarrow> 'b result) \<Rightarrow> 'b result" where
  "then_do m f = (case m of Inl e \<Rightarrow> Inl e | Inr (x, d) \<Rightarrow> f x d)"

definition final :: "'a result \<Rightarrow> decoder" where
  "final r = (case r of Inl (e, d) \<Rightarrow> d | Inr (x, d) \<Rightarrow> d)"

definition returned :: "'a result \<Rightarrow> 'a option" where
  "returned r = (case r of Inl e \<Rightarrow> None | Inr (x, d) \<Rightarrow> Some x)"

definition raised :: "'a result \<Rightarrow> error option" where
  "raised r = (case r of Inl (e, d) \<Rightarrow> Some e | Inr x \<Rightarrow> None)"

definition reset :: "decoder \<Rightarrow> decoder" where
  "reset d = d\<lparr>state := ''IDLE'', samplenums := None\<rparr>"

definition put :: "int \<Rightarrow> int \<Rightarrow> nat \<times> string list \<Rightarrow> decoder \<Rightarrow> unit result" where
  "put s e data d = Inr ((), d\<lparr>emitted := emitted d @ [(s, e, data)]\<rparr>)"

definition putx :: "nat \<times> string list \<Rightarrow> decoder \<Rightarrow> unit result" where
  "putx data d = put (ss d) (es d) data d"

definition putf :: "nat \<Rightarrow> nat \<Rightarrow> nat \<times> string list \<Rightarrow> decoder \<Rightarrow> unit result" where
  "putf s e data d =
     (case samplenums d of None \<Rightarrow> Inl (TypeError, d)
      | Some sn \<Rightarrow>
          if \<not> s < length sn then Inl (IndexError, d)
          else if \<not> e < length sn then Inl (IndexError, d)
          else put (fst (sn ! s)) (snd (sn ! e)) data d)"

definition putb :: "nat \<Rightarrow> nat \<times> string list \<Rightarrow> decoder \<Rightarrow> unit result" where
  "putb b data d = putf b b data d"

section \<open>PDI frame decoder\<close>

definition ann_class_text :: "nat \<rightharpoonup> string list" where
  "ann_class_text = map_of
     [(PARITY_OK, [''Parity OK'', ''Par OK'', ''P'']),
      (PARITY_ERR, [''Parity error'', ''Par ERR'', ''PE'']),
      (BREAK, [''Break condition'', ''BREAK'', ''BRK''])]"

definition ann_class :: "nat \<rightharpoonup> (nat \<rightharpoonup> nat)" where
  "ann_class = map_of
     [(DATA_IN, map_of [(PARITY_OK, PARITY_IN_OK), (PARITY_ERR, PARITY_IN_ERR)]),
      (DATA_OUT, map_of [(PARITY_OK, PARITY_OUT_OK), (PARITY_ERR, PARITY_OUT_ERR)])]"

definition special_character :: "nat \<rightharpoonup> string" where
  "special_character = map_of [(0xBB, ''BREAK''), (0xDB, ''DELAY''), (0xEB, ''EMPTY'')]"

definition PDIDecoder_putb :: "nat \<Rightarrow> nat \<Rightarrow> nat \<Rightarrow> decoder \<Rightarrow> unit result" where
  "PDIDecoder_putb b dir v d =
     (case ann_class dir of None \<Rightarrow> Inl (KeyError, d) | Some cls \<Rightarrow>
     (case cls v of None \<Rightarrow> Inl (KeyError, d) | Some c \<Rightarrow>
     (case ann_class_text v of None \<Rightarrow> Inl (KeyError, d) | Some txt \<Rightarrow>
      putb b (c, txt) d)))"

definition put_special :: "nat \<Rightarrow> nat \<Rightarrow> decoder \<Rightarrow> unit result" where
  "put_special data dir d =
     (let special = (case special_character data of Some s \<Rightarrow> s | None \<Rightarrow> ''INVALID'')
      in if dir = DATA_IN then putx (DATA_PROG, [special]) d
         else putx (DATA_DEV, [special]) d)"

text \<open>
  \<^verbatim>\<open>checkParity\<close> reads \<^verbatim>\<open>value[0]\<close> and parses \<^verbatim>\<open>value[1:]\<close> first; the length test
  comes after them, as in the source.
\<close>

definition checkParity :: "string \<Rightarrow> nat \<Rightarrow> decoder \<Rightarrow> (nat \<times> bool) result" where
  "checkParity val dir d =
     (case val of [] \<Rightarrow> Inl (IndexError, d) | v0 # _ \<Rightarrow>
     (case int_char v0 of None \<Rightarrow> Inl (ValueError, d) | Some parity \<Rightarrow>
     (case int_0b (drop 1 val) of None \<Rightarrow> Inl (ValueError, d) | Some data \<Rightarrow>
      let dataText = format_04x data in
     (case sum_int_chars (drop 1 val) of None \<Rightarrow> Inl (ValueError, d) | Some onesCount \<Rightarrow>
      let parityOK = ((onesCount + parity) mod 2 = 0) in
      if length val \<noteq> 9 then Inr ((0, False), d)
      else
        then_do (putf 0 7 (dir, [''Data: '' @ dataText, ''D: '' @ dataText, dataText]) d) (\<lambda>_ d.
        then_do (PDIDecoder_putb 8 dir (if parityOK then PARITY_OK else PARITY_ERR) d) (\<lambda>_ d.
        if \<not> parityOK then then_do (put_special data dir d) (\<lambda>_ d. Inr ((data, parityOK), d))
        else Inr ((data, parityOK), d)))))))"

definition handleInput :: "string \<Rightarrow> decoder \<Rightarrow> unit result" where
  "handleInput val d = then_do (checkParity val DATA_IN d) (\<lambda>_ d. Inr ((), d))"

definition handleOutput :: "string \<Rightarrow> decoder \<Rightarrow> unit result" where
  "handleOutput val d = then_do (checkParity val DATA_OUT d) (\<lambda>_ d. Inr ((), d))"

section \<open>TAP register dispatcher\<close>

definition handle_reg_bypass :: "string \<Rightarrow> string \<Rightarrow> decoder \<Rightarrow> unit result" where
  "handle_reg_bypass cmd bits d = putx (JTAG_ITEM, [''BYPASS: '' @ bits]) d"

definition handle_reg_idcode :: "string \<Rightarrow> string \<Rightarrow> decoder \<Rightarrow> unit result" where
  "handle_reg_idcode cmd bits d =
     (case decode_device_id_code bits of Inl e \<Rightarrow> Inl (e, d)
      | Inr (id_hex, manuf, vers, part) \<Rightarrow>
        then_do (putb 0 (JTAG_FIELD, [''Reserved'', ''Res'', ''R'']) d) (\<lambda>_ d.
        then_do (putf 1 11 (JTAG_FIELD, [''Manufacturer: '' @ manuf, ''Manuf'', ''M'']) d) (\<lambda>_ d.
        then_do (putf 12 27 (JTAG_FIELD, [''Part: '' @ part, ''Part'', ''P'']) d) (\<lambda>_ d.
        then_do (putf 28 31 (JTAG_FIELD, [''Version: '' @ dec_digits vers, ''Version'', ''V'']) d) (\<lambda>_ d.
        then_do (putx (JTAG_ITEM, [''IDCODE: '' @ id_hex]) d) (\<lambda>_ d.
        putx (JTAG_COMMAND,
          [''IDCODE: '' @ id_hex @ '' ('' @ manuf @ '': '' @ part @ ''@r'' @ dec_digits vers @ '')'']) d))))))"

text \<open>
  \<^verbatim>\<open>getattr(self, f'handle_reg_{name}')\<close>: the class has exactly two attributes of that
  shape; any other name raises AttributeError.
\<close>

definition getattr_handle_reg ::
    "string \<Rightarrow> (string \<Rightarrow> string \<Rightarrow> decoder \<Rightarrow> unit result) option" where
  "getattr_handle_reg name =
     (if name = ''bypass'' then Some handle_reg_bypass
      else if name = ''idcode'' then Some handle_reg_idcode
      else None)"

text \<open>
  An upstream packet is either \<^verbatim>\<open>['NEW STATE', name]\<close> or \<^verbatim>\<open>[cmd, [bits, samplenums]]\<close>.
  The source unpacks the second shape unless \<open>cmd\<close> is \<^verbatim>\<open>'NEW STATE'\<close>; no branch reads
  the payload of a packet labelled \<^verbatim>\<open>'NEW STATE'\<close>.
\<close>

datatype event = NewState string | Shift string string "(int \<times> int) list"

text \<open>Lines 223 to 245 of \<^verbatim>\<open>Decoder.decode\<close>, after the packet is unpacked.\<close>

definition dispatch :: "string \<Rightarrow> string \<Rightarrow> decoder \<Rightarrow> unit result" where
  "dispatch cmd val d =
     then_do
       (if cmd = ''IR TDI'' then
          (let d' = d\<lparr>state := (case ir (take 4 val) of Some (name, width) \<Rightarrow> name
                                 | None \<Rightarrow> ''UNKNOWN'')\<rparr>
           in putx (2, [''IR: '' @ state d']) d')
        else Inr ((), d))
       (\<lambda>_ d.
          if state d = ''BYPASS'' then
            (if cmd \<noteq> ''DR TDI'' then Inr ((), d)
             else then_do (handle_reg_bypass cmd val d) (\<lambda>_ d. Inr ((), d\<lparr>state := ''IDLE''\<rparr>)))
          else if str_in (state d) ''IDCODE'' then
            (if cmd \<noteq> ''DR TDO'' then Inr ((), d)
             else (case getattr_handle_reg (lower (state d)) of
                     None \<Rightarrow> Inl (AttributeError, d)
                   | Some handle_reg \<Rightarrow>
                       then_do (handle_reg cmd val d) (\<lambda>_ d. Inr ((), d\<lparr>state := ''IDLE''\<rparr>))))
          else if state d = ''PDICOM'' then
            (if cmd \<notin> set [''DR TDI'', ''DR TDO''] then Inr ((), d)
             else if cmd = ''DR TDI'' then handleInput val d
             else then_do (putx (JTAG_COMMAND, [''PDICOM'']) d) (\<lambda>_ d. handleOutput val d))
          else Inr ((), d))"

fun decode :: "int \<Rightarrow> int \<Rightarrow> event \<Rightarrow> decoder \<Rightarrow> unit result" where
  "decode s e (NewState name) d = dispatch ''NEW STATE'' name (d\<lparr>ss := s, es := e\<rparr>)"
| "decode s e (Shift cmd bits sn) d =
     (if cmd \<noteq> ''NEW STATE''
      then dispatch cmd bits (d\<lparr>ss := s, es := e, samplenums := Some (rev sn)\<rparr>)
      else dispatch cmd [] (d\<lparr>ss := s, es := e\<rparr>))"

text \<open>A run of the decoder over a stream of packets stops at the first exception.\<close>

fun decode_all :: "(int \<times> int \<times> event) list \<Rightarrow> decoder \<Rightarrow> unit result" where
  "decode_all [] d = Inr ((), d)"
| "decode_all ((s, e, ev) # evs) d =
     (case decode s e ev d of Inl err \<Rightarrow> Inl err | Inr (_, d') \<Rightarrow> decode_all evs d')"

section \<open>Notions the properties are stated with\<close>

text \<open>
  The value of a bit string read most-significant first, the number of its characters
  that are 1, the number of set bits of an integer, and the flip of one bit character.
\<close>

primrec bits_value :: "string \<Rightarrow> nat" where
  "bits_value [] = 0"
| "bits_value (c # cs) = bit_val c * 2 ^ length cs + bits_value cs"

definition count_ones :: "string \<Rightarrow> nat" where
  "count_ones s = length (filter (\<lambda>c. c = CHR ''1'') s)"

function popcount :: "nat \<Rightarrow> nat" where
  "popcount n = (if n = 0 then 0 else n mod 2 + popcount (n div 2))"
  by pat_completeness auto
termination
  by (relation "measure id") auto

declare popcount.simps [simp del]

definition flip_bit :: "char \<Rightarrow> char" where
  "flip_bit c = (if c = CHR ''0'' then CHR ''1'' else CHR ''0'')"

text \<open>
  The special-character table as the specification words it, and the annotations of one
  well-formed frame: data value over samples 0 to 7, parity over sample 8, and the
  special character over the whole event when parity fails.
\<close>

definition special_label :: "nat \<Rightarrow> string" where
  "special_label b =
     (if b = 0xBB then ''BREAK'' else if b = 0xDB then ''DELAY''
      else if b = 0xEB then ''EMPTY'' else ''INVALID'')"

definition frame_annotations :: "string \<Rightarrow> nat \<Rightarrow> decoder \<Rightarrow> (int \<times> int) list \<Rightarrow> annotation list" where
  "frame_annotations frame dir d sn =
     (let txt = format_04x (bits_value (tl frame)); ok = even (count_ones frame)
      in [(fst (sn ! 0), snd (sn ! 7), dir, [''Data: '' @ txt, ''D: '' @ txt, txt]),
          (fst (sn ! 8), snd (sn ! 8),
           (if dir = DATA_IN then (if ok then PARITY_IN_OK else PARITY_IN_ERR)
            else (if ok then PARITY_OUT_OK else PARITY_OUT_ERR)),
           (if ok then [''Parity OK'', ''Par OK'', ''P''] else [''Parity error'', ''Par ERR'', ''PE'']))]
         @ (if ok then []
            else [(ss d, es d, (if dir = DATA_IN then DATA_PROG else DATA_DEV),
                   [special_label (bits_value (tl frame))])]))"

definition is_special :: "annotation \<Rightarrow> bool" where
  "is_special a = (fst (snd (snd a)) = DATA_PROG \<or> fst (snd (snd a)) = DATA_DEV)"

definition new_annotations :: "decoder \<Rightarrow> 'a result \<Rightarrow> annotation list" where
  "new_annotations d r = drop (length (emitted d)) (emitted (final r))"

definition frame_decoder :: decoder where
  "frame_decoder = \<lparr>state = ''PDICOM'',
     samplenums = Some [(0, 1), (1, 2), (2, 3), (3, 4), (4, 5), (5, 6), (6, 7), (7, 8), (8, 9)],
     ss = 0, es = 9, emitted = []\<rparr>"

text \<open>
  The value of the characters \<open>i\<close> to \<open>j\<close> of a bit string, counted from its first
  (most-significant) character, character \<open>i\<close> being the most significant of the field; and
  the two name tables as the specification words them.
\<close>

definition field :: "string \<Rightarrow> nat \<Rightarrow> nat \<Rightarrow> nat" where
  "field bits i j = bits_value (map (\<lambda>k. bits ! k) [i..<Suc j])"

definition manufacturer_name :: "nat \<Rightarrow> string" where
  "manufacturer_name m = (if m = 0x1f then ''Atmel'' else ''INVALID'')"

definition part_name :: "nat \<Rightarrow> string" where
  "part_name p =
     (if p = 0x9642 then ''ATXMega64A3U'' else if p = 0x9742 then ''ATXMega128A3U''
      else if p = 0x9744 then ''ATXMega192A3U'' else if p = 0x9842 then ''ATXMega256A3U''
      else format_hex p)"

text \<open>Reading a string of lower-case hexadecimal digits back as a number.\<close>

definition hex_char_value :: "char \<Rightarrow> nat" where
  "hex_char_value c = length (takeWhile (\<lambda>x. x \<noteq> c) ''0123456789abcdef'')"

definition hex_value :: "string \<Rightarrow> nat" where
  "hex_value s = foldl (\<lambda>a c. 16 * a + hex_char_value c) 0 s"

text \<open>
  Data-register events, a decoder whose output so far is extended by further annotations
  and is otherwise unchanged, and a fresh decoder with a given register selected.
\<close>

definition is_dr_event :: "event \<Rightarrow> bool" where
  "is_dr_event ev =
     (case ev of NewState name \<Rightarrow> False
      | Shift cmd bits sn \<Rightarrow> cmd = ''DR TDI'' \<or> cmd = ''DR TDO'')"

definition extends :: "decoder \<Rightarrow> decoder \<Rightarrow> bool" where
  "extends d d' = (\<exists>ys. d' = d\<lparr>emitted := emitted d @ ys\<rparr>)"

definition selected :: "string \<Rightarrow> decoder" where
  "selected name = \<lparr>state = name, samplenums = None, ss = 0, es = 0, emitted = []\<rparr>"

section \<open>Bit strings\<close>

lemma bin_digits_bits:
  "list_all is_bit s \<Longrightarrow> bin_digits s acc = Some (acc * 2 ^ length s + bits_value s)"
  by (induction s arbitrary: acc) (simp_all add: algebra_simps)

lemma not_space_bit: "is_bit c \<Longrightarrow> \<not> py_isspace c"
  by (auto simp: is_bit_def py_isspace_def)

lemma strip_bits:
  assumes "list_all is_bit s"
  shows "rev (dropWhile py_isspace (rev s)) = s"
proof (cases s rule: rev_cases)
  case Nil
  then show ?thesis by simp
next
  case (snoc ys y)
  with assms have "\<not> py_isspace y" by (simp add: not_space_bit)
  with snoc show ?thesis by simp
qed

lemma int_0b_bits:
  assumes "list_all is_bit s" and "s \<noteq> []"
  shows "int_0b s = Some (bits_value s)"
proof -
  from assms obtain c cs where s: "s = c # cs" by (cases s) auto
  with assms have c: "is_bit c" by simp
  then have "c \<noteq> CHR ''_''" by (auto simp: is_bit_def)
  with c s assms show ?thesis
    unfolding int_0b_def strip_bits [OF assms(1)] Let_def
    using bin_digits_bits [OF assms(1), of 0] by simp
qed

lemma int_char_bit: "is_bit c \<Longrightarrow> int_char c = Some (bit_val c)"
  by (auto simp: is_bit_def int_char_def bit_val_def)

lemma count_ones_Cons: "count_ones (c # cs) = (if c = CHR ''1'' then 1 else 0) + count_ones cs"
  by (simp add: count_ones_def)

lemma sum_int_chars_bits: "list_all is_bit s \<Longrightarrow> sum_int_chars s = Some (count_ones s)"
  by (induction s) (simp_all add: int_char_bit count_ones_def bit_val_def)

lemma bits_value_snoc: "bits_value (s @ [c]) = 2 * bits_value s + bit_val c"
  by (induction s) (simp_all add: algebra_simps)

lemma popcount_double: "b \<le> 1 \<Longrightarrow> popcount (2 * n + b) = popcount n + b"
proof -
  assume b: "b \<le> 1"
  show ?thesis
  proof (cases "2 * n + b = 0")
    case True then show ?thesis by (simp add: popcount.simps)
  next
    case False
    from b have md: "(2 * n + b) mod 2 = b" "(2 * n + b) div 2 = n" by auto
    from False have "popcount (2 * n + b) = (2 * n + b) mod 2 + popcount ((2 * n + b) div 2)"
      by (subst popcount.simps) (simp only: if_False)
    also have "\<dots> = b + popcount n" by (simp only: md)
    finally show ?thesis by (simp only: add.commute)
  qed
qed

lemma popcount_bits_value: "popcount (bits_value s) = count_ones s"
proof (induction s rule: rev_induct)
  case Nil
  show ?case by (simp add: popcount.simps count_ones_def)
next
  case (snoc c s)
  have "bit_val c \<le> 1" by (simp add: bit_val_def)
  then show ?case
    by (simp add: bits_value_snoc popcount_double snoc.IH) (simp add: count_ones_def bit_val_def)
qed

lemma bits_value_bound: "bits_value s < 2 ^ length s"
proof (induction s)
  case Nil show ?case by simp
next
  case (Cons c cs)
  from Cons show ?case by (simp add: bit_val_def)
qed

lemma count_ones_flip:
  "i < length s \<Longrightarrow> list_all is_bit s \<Longrightarrow>
   even (count_ones (s[i := flip_bit (s ! i)])) = odd (count_ones s)"
proof (induction s arbitrary: i)
  case Nil then show ?case by simp
next
  case (Cons c cs)
  show ?case
  proof (cases i)
    case 0
    with Cons.prems show ?thesis by (auto simp: count_ones_Cons flip_bit_def is_bit_def)
  next
    case (Suc j)
    with Cons show ?thesis by (simp add: count_ones_Cons)
  qed
qed

lemma flip_bits: "list_all is_bit s \<Longrightarrow> list_all is_bit (s[i := flip_bit (s ! i)])"
proof -
  assume a: "list_all is_bit s"
  have "is_bit (flip_bit c)" for c by (simp add: flip_bit_def is_bit_def)
  with a show ?thesis
    using set_update_subset_insert [of s i "flip_bit (s ! i)"] by (auto simp: list_all_iff)
qed

section \<open>PDI frames\<close>

lemma special_character_label:
  "(case special_character b of Some s \<Rightarrow> s | None \<Rightarrow> ''INVALID'') = special_label b"
  by (simp add: special_character_def special_label_def)

lemma PDIDecoder_putb_dir:
  assumes "dir = DATA_IN \<or> dir = DATA_OUT"
  shows "PDIDecoder_putb b dir (if ok then PARITY_OK else PARITY_ERR) d =
         putb b ((if dir = DATA_IN then (if ok then PARITY_IN_OK else PARITY_IN_ERR)
                  else (if ok then PARITY_OUT_OK else PARITY_OUT_ERR)),
                 (if ok then [''Parity OK'', ''Par OK'', ''P'']
                  else [''Parity error'', ''Par ERR'', ''PE''])) d"
  using assms by (auto simp: PDIDecoder_putb_def ann_class_def ann_class_text_def ann_defs)

lemma putf_ok:
  "samplenums d = Some sn \<Longrightarrow> s < length sn \<Longrightarrow> e < length sn \<Longrightarrow>
   putf s e data d = Inr ((), d\<lparr>emitted := emitted d @ [(fst (sn ! s), snd (sn ! e), data)]\<rparr>)"
  by (simp add: putf_def put_def)

lemma checkParity_parse:
  assumes "list_all is_bit (v0 # rest)" and "rest \<noteq> []"
  shows "checkParity (v0 # rest) dir d =
     (if length rest \<noteq> 8 then Inr ((0, False), d)
      else
        then_do (putf 0 7 (dir, [''Data: '' @ format_04x (bits_value rest),
                                 ''D: '' @ format_04x (bits_value rest),
                                 format_04x (bits_value rest)]) d) (\<lambda>_ d.
        then_do (PDIDecoder_putb 8 dir
                   (if even (count_ones (v0 # rest)) then PARITY_OK else PARITY_ERR) d) (\<lambda>_ d.
        if \<not> even (count_ones (v0 # rest))
        then then_do (put_special (bits_value rest) dir d)
               (\<lambda>_ d. Inr ((bits_value rest, even (count_ones (v0 # rest))), d))
        else Inr ((bits_value rest, even (count_ones (v0 # rest))), d))))"
proof -
  from assms have b0: "is_bit v0" and br: "list_all is_bit rest" by simp_all
  have par: "((count_ones rest + bit_val v0) mod 2 = 0) = even (count_ones (v0 # rest))"
    by (auto simp: count_ones_Cons bit_val_def even_iff_mod_2_eq_zero)
  show ?thesis
    unfolding checkParity_def
    by (simp add: int_char_bit [OF b0] int_0b_bits [OF br assms(2)] sum_int_chars_bits [OF br]
        Let_def par)
qed

lemma checkParity_frame:
  assumes len: "length frame = 9" and bits: "list_all is_bit frame"
    and sn: "samplenums d = Some sn" and lsn: "9 \<le> length sn"
    and dir: "dir = DATA_IN \<or> dir = DATA_OUT"
  shows "checkParity frame dir d =
         Inr ((bits_value (tl frame), even (count_ones frame)),
              d\<lparr>emitted := emitted d @ frame_annotations frame dir d sn\<rparr>)"
proof -
  from len obtain v0 rest where fr: "frame = v0 # rest" and lr: "length rest = 8"
    by (cases frame) auto
  then have ne: "rest \<noteq> []" by auto
  show ?thesis
    unfolding fr checkParity_parse [OF bits [unfolded fr] ne]
    using lr lsn sn
    by (simp add: then_do_def putf_ok [OF sn] PDIDecoder_putb_dir [OF dir] putb_def put_special_def
        putf_def put_def putx_def special_character_label frame_annotations_def Let_def)
      auto
qed

lemma checkParity_wrong_length:
  assumes "list_all is_bit val" and "2 \<le> length val" and "length val \<noteq> 9"
  shows "checkParity val dir d = Inr ((0, False), d)"
proof -
  from assms(2) obtain v0 rest where v: "val = v0 # rest" by (cases val) auto
  with assms(2) have ne: "rest \<noteq> []" by auto
  from assms(3) v have "length rest \<noteq> 8" by auto
  then show ?thesis
    unfolding v using checkParity_parse [OF assms(1) [unfolded v] ne] by simp
qed

text \<open>
  Claim C1. The claim: every input of length other than 9 (lengths 0, 1, 8 and 10 in
  particular) makes \<^verbatim>\<open>checkParity\<close> return (0, False) with no annotation, the length test
  coming before any access to the frame. In the source the test comes after
  \<^verbatim>\<open>int(value[0])\<close> and \<^verbatim>\<open>int(f'0b{value[1:]}', 2)\<close>: the empty string raises IndexError
  and every one-character string raises ValueError, before the guard is reached.
\<close>

theorem checkParity_short_frame_raises:
  "checkParity [] dir d = Inl (IndexError, d) \<and> checkParity [c] dir d = Inl (ValueError, d)"
  by (simp add: checkParity_def int_0b_def split: option.split)

text \<open>
  Claim C2. For a frame of nine characters 0 or 1, with the sample ranges of its nine
  bits, \<^verbatim>\<open>checkParity\<close> returns the value of the eight data bits \<open>frame[1..9]\<close> read
  most-significant first (a byte), and \<open>parity_ok\<close> is true exactly when the number of set
  bits of that byte plus the parity bit \<open>frame[0]\<close> is even; flipping any one of the nine
  bits flips \<open>parity_ok\<close>.
\<close>

theorem checkParity_even_parity:
  assumes "length frame = 9" and "list_all is_bit frame"
    and "samplenums d = Some sn" and "9 \<le> length sn"
    and "dir = DATA_IN \<or> dir = DATA_OUT"
  shows "returned (checkParity frame dir d) =
           Some (bits_value (drop 1 frame),
                 even (popcount (bits_value (drop 1 frame)) + bit_val (frame ! 0)))
         \<and> bits_value (drop 1 frame) < 256
         \<and> (\<forall>i<9. map_option snd (returned (checkParity (frame[i := flip_bit (frame ! i)]) dir d)) =
               Some (\<not> even (popcount (bits_value (drop 1 frame)) + bit_val (frame ! 0))))"
proof -
  have par: "even (popcount (bits_value (drop 1 f)) + bit_val (f ! 0)) = even (count_ones f)"
    if "length f = 9" for f
  proof -
    from that obtain v0 rest where "f = v0 # rest" by (cases f) auto
    then show ?thesis
      by (simp add: popcount_bits_value count_ones_Cons bit_val_def)
  qed
  have ret: "returned (checkParity f dir d) = Some (bits_value (drop 1 f), even (count_ones f))"
    if "length f = 9" and "list_all is_bit f" for f
    using checkParity_frame [OF that assms(3,4,5)] by (simp add: returned_def drop_Suc)
  have bound: "bits_value (drop 1 frame) < 256"
    using bits_value_bound [of "drop 1 frame"] assms(1) by simp
  have flip: "map_option snd (returned (checkParity (frame[i := flip_bit (frame ! i)]) dir d)) =
                Some (\<not> even (count_ones frame))" if "i < 9" for i
  proof -
    have "length (frame[i := flip_bit (frame ! i)]) = 9" using assms(1) by simp
    from ret [OF this flip_bits [OF assms(2)]] count_ones_flip [of i frame] that assms(1,2)
    show ?thesis by simp
  qed
  show ?thesis
    unfolding par [OF assms(1)] using ret [OF assms(1,2)] bound flip by blast
qed

theorem checkParity_even_parity_witness:
  "length ''011111111'' = 9 \<and> list_all is_bit ''011111111''
   \<and> returned (checkParity ''011111111'' DATA_OUT frame_decoder) = Some (255, True)
   \<and> map_option snd (returned (checkParity ''011101111'' DATA_OUT frame_decoder)) = Some False"
proof -
  have h1: "length ''011111111'' = 9" by simp
  have h2: "list_all is_bit ''011111111''" by (simp add: is_bit_def)
  have h3: "samplenums frame_decoder =
              Some [(0, 1), (1, 2), (2, 3), (3, 4), (4, 5), (5, 6), (6, 7), (7, 8), (8, 9)]"
    by (simp add: frame_decoder_def)
  have h4: "9 \<le> length [(0, 1), (1, 2), (2, 3), (3, 4), (4, 5), (5, 6), (6, 7), (7, 8), (8, 9::int)]"
    by simp
  have h5: "DATA_OUT = DATA_IN \<or> DATA_OUT = DATA_OUT" by simp
  note T = checkParity_even_parity [OF h1 h2 h3 h4 h5]
  have dv: "bits_value (drop 1 ''011111111'') = 255" by (simp add: bit_val_def)
  have pc: "popcount (bits_value (drop 1 ''011111111'')) = 8"
    by (simp only: popcount_bits_value) (simp add: count_ones_def)
  have p0: "bit_val (''011111111'' ! 0) = 0" by (simp add: bit_val_def)
  have fl: "''011111111''[4 := flip_bit (''011111111'' ! 4)] = ''011101111''"
    by (simp add: flip_bit_def)
  have i4: "(4::nat) < 9" by simp
  from T [THEN conjunct1]
  have a: "returned (checkParity ''011111111'' DATA_OUT frame_decoder) = Some (255, True)"
    by (simp only: pc p0) (simp add: bit_val_def)
  from T [THEN conjunct2, THEN conjunct2, rule_format, OF i4]
  have b: "map_option snd (returned (checkParity ''011101111'' DATA_OUT frame_decoder)) = Some False"
    by (simp only: fl pc p0) simp
  show ?thesis by (intro conjI) (rule h1 h2 a b)+
qed

text \<open>
  Claim C5. For a frame of nine characters 0 or 1, the annotations \<^verbatim>\<open>checkParity\<close> emits
  contain a special-character annotation exactly when the parity check fails; it is then
  the label of the data byte (0xBB BREAK, 0xDB DELAY, 0xEB EMPTY, anything else INVALID),
  of class DATA_PROG for direction DATA_IN (to the device) and DATA_DEV for DATA_OUT
  (to the host), spanning the whole event.
\<close>

theorem checkParity_special_character:
  assumes "length frame = 9" and "list_all is_bit frame"
    and "samplenums d = Some sn" and "9 \<le> length sn"
    and "dir = DATA_IN \<or> dir = DATA_OUT"
  shows "(let r = checkParity frame dir d;
              data = bits_value (drop 1 frame);
              ok = even (count_ones (drop 1 frame) + bit_val (frame ! 0))
          in returned r = Some (data, ok)
             \<and> filter is_special (new_annotations d r) =
                 (if ok then []
                  else [(ss d, es d, (if dir = DATA_IN then DATA_PROG else DATA_DEV),
                         [special_label data])])
             \<and> ((\<exists>a \<in> set (new_annotations d r). is_special a) \<longleftrightarrow> \<not> ok))"
proof -
  from assms(1) obtain v0 rest where fr: "frame = v0 # rest" by (cases frame) auto
  have ok: "even (count_ones (drop 1 frame) + bit_val (frame ! 0)) = even (count_ones frame)"
    by (simp add: fr count_ones_Cons bit_val_def)
  have sp: "filter is_special (frame_annotations frame dir d sn) =
              (if even (count_ones frame) then []
               else [(ss d, es d, (if dir = DATA_IN then DATA_PROG else DATA_DEV),
                      [special_label (bits_value (drop 1 frame))])])"
    using assms(5) by (auto simp: frame_annotations_def is_special_def Let_def ann_defs drop_Suc)
  have ex: "(\<exists>a \<in> set xs. is_special a) \<longleftrightarrow> filter is_special xs \<noteq> []" for xs
    by (simp add: filter_empty_conv)
  show ?thesis
    unfolding Let_def ok ex
    using checkParity_frame [OF assms] sp
    by (simp add: returned_def final_def new_annotations_def drop_Suc)
qed

theorem checkParity_special_character_witness:
  "length ''110111011'' = 9 \<and> list_all is_bit ''110111011''
   \<and> returned (checkParity ''110111011'' DATA_IN frame_decoder) = Some (0xBB, False)
   \<and> filter is_special (new_annotations frame_decoder (checkParity ''110111011'' DATA_IN frame_decoder))
       = [(0, 9, DATA_PROG, [''BREAK''])]"
proof -
  have h1: "length ''110111011'' = 9" by simp
  have h2: "list_all is_bit ''110111011''" by (simp add: is_bit_def)
  have h3: "samplenums frame_decoder =
              Some [(0, 1), (1, 2), (2, 3), (3, 4), (4, 5), (5, 6), (6, 7), (7, 8), (8, 9)]"
    by (simp add: frame_decoder_def)
  have h4: "9 \<le> length [(0, 1), (1, 2), (2, 3), (3, 4), (4, 5), (5, 6), (6, 7), (7, 8), (8, 9::int)]"
    by simp
  have h5: "DATA_IN = DATA_IN \<or> DATA_IN = DATA_OUT" by simp
  show ?thesis
    using checkParity_special_character [OF h1 h2 h3 h4 h5] h1 h2
    by (simp add: Let_def count_ones_def bit_val_def special_label_def frame_decoder_def)
qed

section \<open>IDCODE fields\<close>

text \<open>The digits that \<open>format_hex\<close> writes after the prefix denote the number formatted.\<close>

lemma hex_char_value_digit: "k < 16 \<Longrightarrow> hex_char_value (hex_digit k) = k"
proof -
  assume "k < 16"
  then have "k \<in> {0, 1, 2, 3, 4, 5, 6, 7, 8, 9, 10, 11, 12, 13, 14, 15}"
    by (simp only: insert_iff empty_iff) arith
  then show ?thesis
    by (elim insertE emptyE) (simp_all add: hex_char_value_def hex_digit_def)
qed

lemma hex_value_snoc: "hex_value (s @ [c]) = 16 * hex_value s + hex_char_value c"
  by (simp add: hex_value_def)

lemma hex_digits_value: "hex_value (hex_digits n) = n"
proof (induction n rule: hex_digits.induct)
  case (1 n)
  show ?case
  proof (cases "n < 16")
    case True
    then show ?thesis
      by (subst hex_digits.simps) (simp add: hex_value_def hex_char_value_digit)
  next
    case False
    with 1 have "hex_value (hex_digits (n div 16)) = n div 16" by simp
    with False show ?thesis
      by (subst hex_digits.simps) (simp add: hex_value_snoc hex_char_value_digit)
  qed
qed

lemma take_drop_nth: "i + n \<le> length xs \<Longrightarrow> take n (drop i xs) = map (\<lambda>k. xs ! k) [i..<i + n]"
  by (rule nth_equalityI) simp_all

lemma py_slice_32:
  assumes "length bits = 32"
  shows "py_slice bits (-32) (-28) = take 4 bits"
    and "py_slice bits (-28) (-12) = take 16 (drop 4 bits)"
    and "py_slice bits (-12) (-1) = take 11 (drop 20 bits)"
  using assms by (simp_all add: py_slice_def slice_bound_def)

lemma list_all_take_drop: "list_all P xs \<Longrightarrow> list_all P (take n (drop i xs))"
  by (auto simp: list_all_iff dest: in_set_takeD in_set_dropD)

lemma jedec_id_name: "(case jedec_id m of Some name \<Rightarrow> name | None \<Rightarrow> ''INVALID'') = manufacturer_name m"
  by (simp add: jedec_id_def manufacturer_name_def)

lemma avr_idcode_name: "(case avr_idcode p of Some name \<Rightarrow> name | None \<Rightarrow> format_hex p) = part_name p"
  by (simp add: avr_idcode_def part_name_def)

lemma decode_device_id_code_32:
  assumes len: "length bits = 32" and bits: "list_all is_bit bits"
  shows "decode_device_id_code bits =
           Inr (format_hex (bits_value bits),
                manufacturer_name (bits_value (take 11 (drop 20 bits))),
                bits_value (take 4 bits),
                part_name (bits_value (take 16 (drop 4 bits))))"
proof -
  have v: "int_0b (take 4 bits) = Some (bits_value (take 4 bits))"
    using list_all_take_drop [OF bits, of 4 0] len by (intro int_0b_bits) auto
  have p: "int_0b (take 16 (drop 4 bits)) = Some (bits_value (take 16 (drop 4 bits)))"
    using list_all_take_drop [OF bits, of 16 4] len by (intro int_0b_bits) auto
  have m: "int_0b (take 11 (drop 20 bits)) = Some (bits_value (take 11 (drop 20 bits)))"
    using list_all_take_drop [OF bits, of 11 20] len by (intro int_0b_bits) auto
  have a: "int_0b bits = Some (bits_value bits)"
    using bits len by (intro int_0b_bits) auto
  show ?thesis
    unfolding decode_device_id_code_def py_slice_32 [OF len]
    by (simp add: v p m a Let_def jedec_id_name avr_idcode_name)
qed

text \<open>
  Claim C3. For a string of 32 characters 0 or 1, with positions counted from the
  most-significant end of the string (position 0 is the first character), the decoder
  takes the version from positions 0 to 3, the part id from positions 4 to 19 and the
  JEDEC manufacturer id from positions 20 to 30; position 31 is reserved, so changing it
  changes none of the three. The manufacturer id 0x1f is rendered Atmel and any other
  INVALID; a part id of the AVR table is rendered by its name and any other as a
  hexadecimal literal.
\<close>

theorem decode_device_id_code_layout:
  assumes "length bits = 32" and "list_all is_bit bits"
  shows "decode_device_id_code bits =
           Inr (format_hex (bits_value bits),
                manufacturer_name (field bits 20 30),
                field bits 0 3,
                part_name (field bits 4 19))
         \<and> (\<forall>c. is_bit c \<longrightarrow>
               map_sum id snd (decode_device_id_code (bits[31 := c])) =
               map_sum id snd (decode_device_id_code bits))"
proof -
  have f: "field b 0 3 = bits_value (take 4 b)" "field b 4 19 = bits_value (take 16 (drop 4 b))"
    "field b 20 30 = bits_value (take 11 (drop 20 b))" if "length b = 32" for b
    using that take_drop_nth [of 0 4 b] take_drop_nth [of 4 16 b] take_drop_nth [of 20 11 b]
    by (simp_all add: field_def)
  have main: "decode_device_id_code b =
                Inr (format_hex (bits_value b), manufacturer_name (field b 20 30), field b 0 3,
                     part_name (field b 4 19))"
    if "length b = 32" and "list_all is_bit b" for b
    using decode_device_id_code_32 [OF that] by (simp add: f [OF that(1)])
  have upd: "map_sum id snd (decode_device_id_code (bits[31 := c])) =
             map_sum id snd (decode_device_id_code bits)" if c: "is_bit c" for c
  proof -
    have l: "length (bits[31 := c]) = 32" using assms(1) by simp
    have b: "list_all is_bit (bits[31 := c])"
      using assms(2) c set_update_subset_insert [of bits 31 c] by (auto simp: list_all_iff)
    have same: "field (bits[31 := c]) i j = field bits i j" if "j < 31" for i j
      using that by (auto simp: field_def intro!: arg_cong [where f = bits_value])
    show ?thesis
      by (simp add: main [OF l b] main [OF assms] same)
  qed
  from main [OF assms] upd show ?thesis by blast
qed

theorem decode_device_id_code_layout_witness:
  "length ''00001001011001000010000000111111'' = 32
   \<and> list_all is_bit ''00001001011001000010000000111111''
   \<and> decode_device_id_code ''00001001011001000010000000111111'' =
       Inr (''0x964203f'', ''Atmel'', 0, ''ATXMega64A3U'')"
proof -
  have h1: "length ''00001001011001000010000000111111'' = 32" by simp
  have h2: "list_all is_bit ''00001001011001000010000000111111''" by (simp add: is_bit_def)
  have hx: "format_hex (bits_value ''00001001011001000010000000111111'') = ''0x964203f''"
    by (simp add: bit_val_def format_hex_def hex_digits.simps hex_digit_def)
  have m: "field ''00001001011001000010000000111111'' 20 30 = 0x1f"
    by (simp add: field_def bit_val_def upt_rec)
  have p: "field ''00001001011001000010000000111111'' 4 19 = 0x9642"
    by (simp add: field_def bit_val_def upt_rec)
  have v: "field ''00001001011001000010000000111111'' 0 3 = 0"
    by (simp add: field_def bit_val_def upt_rec)
  from decode_device_id_code_layout [OF h1 h2, THEN conjunct1]
  have "decode_device_id_code ''00001001011001000010000000111111'' =
       Inr (''0x964203f'', ''Atmel'', 0, ''ATXMega64A3U'')"
    by (simp only: hx m p v) (simp add: manufacturer_name_def part_name_def)
  with h1 h2 show ?thesis by (intro conjI)
qed

text \<open>
  Claim C4. The claim builds the string as reserved, manufacturer, part, version in that
  order. Decoding that concatenation with manufacturer 0x1f and part 0x9642 reports
  manufacturer INVALID and part 0x1f96, since the decoder reads the version first and the
  reserved bit last.
\<close>

theorem decode_device_id_code_concatenation_counterexample:
  "bits_value ''00000011111'' = 0x1f \<and> bits_value ''1001011001000010'' = 0x9642
   \<and> decode_device_id_code (''0'' @ ''00000011111'' @ ''1001011001000010'' @ ''0000'') =
       Inr (''0x1f96420'', ''INVALID'', 0, ''0x1f96'')"
  by (simp add: decode_device_id_code_def py_slice_def slice_bound_def int_0b_def py_isspace_def
      is_bit_def bit_val_def Let_def avr_idcode_def jedec_id_def format_hex_def hex_digits.simps
      hex_digit_def)

text \<open>
  Claim C4, amended. For the 32-bit string built as version (4 bits), part (16),
  manufacturer (11), reserved (1) in that order, with manufacturer field value 0x1f and
  part field value 0x9642, the decoder reports manufacturer Atmel and part ATXMega64A3U
  (and the version field as version).
\<close>

theorem decode_device_id_code_roundtrip:
  assumes "length v = 4" and "length p = 16" and "length m = 11" and "length r = 1"
    and "list_all is_bit (v @ p @ m @ r)"
    and "bits_value m = 0x1f" and "bits_value p = 0x9642"
  shows "decode_device_id_code (v @ p @ m @ r) =
           Inr (format_hex (bits_value (v @ p @ m @ r)), ''Atmel'', bits_value v, ''ATXMega64A3U'')"
proof -
  have len: "length (v @ p @ m @ r) = 32" using assms(1-4) by simp
  show ?thesis
    using decode_device_id_code_32 [OF len assms(5)] assms(1-4,6,7)
    by (simp add: manufacturer_name_def part_name_def)
qed

theorem decode_device_id_code_roundtrip_witness:
  "decode_device_id_code (''0101'' @ ''1001011001000010'' @ ''00000011111'' @ ''1'') =
     Inr (''0x5964203f'', ''Atmel'', 5, ''ATXMega64A3U'')"
proof -
  have h: "length ''0101'' = 4" "length ''1001011001000010'' = 16" "length ''00000011111'' = 11"
    "length ''1'' = 1" by simp_all
  have b: "list_all is_bit (''0101'' @ ''1001011001000010'' @ ''00000011111'' @ ''1'')"
    by (simp add: is_bit_def)
  have m: "bits_value ''00000011111'' = 0x1f" by (simp add: bit_val_def)
  have p: "bits_value ''1001011001000010'' = 0x9642" by (simp add: bit_val_def)
  have v: "bits_value ''0101'' = 5" by (simp add: bit_val_def)
  have hx: "format_hex (bits_value (''0101'' @ ''1001011001000010'' @ ''00000011111'' @ ''1'')) =
              ''0x5964203f''"
    by (simp add: bit_val_def format_hex_def hex_digits.simps hex_digit_def)
  from decode_device_id_code_roundtrip [OF h b m p] show ?thesis
    by (simp only: hx v)
qed

section \<open>Dispatcher\<close>

lemma final_simps [simp]: "final (Inr (x, d)) = d" "final (Inl (err, d)) = d"
  by (simp_all add: final_def)

lemma raised_simps [simp]: "raised (Inr (x, d)) = None" "raised (Inl (err, d)) = Some err"
  by (simp_all add: raised_def)

text \<open>
  The test \<^verbatim>\<open>self.state in ('IDCODE')\<close> is a substring test; on the five register names
  the decoder ever stores it holds for IDCODE only.
\<close>

lemma str_in_IDCODE:
  "str_in name ''IDCODE'' \<Longrightarrow> name \<in> set [''IDLE'', ''BYPASS'', ''IDCODE'', ''PDICOM'', ''UNKNOWN'']
   \<Longrightarrow> name = ''IDCODE''"
  by auto

lemma lower_IDCODE: "lower ''IDCODE'' = ''idcode''"
  by (simp add: lower_def lower_char_def)

lemma dispatch_bypass:
  assumes "state d = ''BYPASS''" and "cmd \<noteq> ''IR TDI''"
  shows "dispatch cmd val d =
           (if cmd = ''DR TDI''
            then Inr ((), d\<lparr>emitted := emitted d @ [(ss d, es d, JTAG_ITEM, [''BYPASS: '' @ val])],
                            state := ''IDLE''\<rparr>)
            else Inr ((), d))"
  using assms
  by (simp add: dispatch_def then_do_def handle_reg_bypass_def putx_def put_def)

lemma dispatch_idcode:
  assumes "state d = ''IDCODE''" and "cmd \<noteq> ''IR TDI''"
  shows "dispatch cmd val d =
           (if cmd = ''DR TDO''
            then then_do (handle_reg_idcode cmd val d) (\<lambda>_ d. Inr ((), d\<lparr>state := ''IDLE''\<rparr>))
            else Inr ((), d))"
  using assms
  by (simp add: dispatch_def then_do_def lower_IDCODE getattr_handle_reg_def)

lemma dispatch_pdicom:
  assumes "state d = ''PDICOM''" and "cmd \<noteq> ''IR TDI''"
  shows "dispatch cmd val d =
           (if cmd = ''DR TDI'' then handleInput val d
            else if cmd = ''DR TDO''
            then handleOutput val (d\<lparr>emitted := emitted d @ [(ss d, es d, JTAG_COMMAND, [''PDICOM''])]\<rparr>)
            else Inr ((), d))"
  using assms
  by (simp add: dispatch_def then_do_def putx_def put_def)

lemma dispatch_unknown:
  assumes "state d = ''UNKNOWN''" and "cmd \<noteq> ''IR TDI''"
  shows "dispatch cmd val d = Inr ((), d)"
  using assms by (simp add: dispatch_def then_do_def)

lemma dispatch_ir_unknown:
  assumes "take 4 val \<notin> {''0011'', ''0111'', ''1111''}"
  shows "dispatch ''IR TDI'' val d =
           Inr ((), d\<lparr>state := ''UNKNOWN'',
                       emitted := emitted d @ [(ss d, es d, JTAG_COMMAND, [''IR: UNKNOWN''])]\<rparr>)"
proof -
  from assms have "ir (take 4 val) = None" by (simp add: ir_def)
  then show ?thesis
    by (simp add: dispatch_def then_do_def putx_def put_def Let_def ann_defs)
qed

lemma extends_refl: "extends d d"
  by (auto simp: extends_def intro: exI [of _ "[]"])

lemma extends_put: "extends d d1 \<Longrightarrow> extends d (final (put a b data d1))"
  by (auto simp: extends_def put_def)

lemma extends_putf: "extends d d1 \<Longrightarrow> extends d (final (putf a b data d1))"
  by (auto simp: putf_def extends_put split: option.split)

lemma extends_then_do:
  assumes "extends d (final m)" and "\<And>x d1. extends d d1 \<Longrightarrow> extends d (final (k x d1))"
  shows "extends d (final (then_do m k))"
proof (cases m)
  case (Inl a)
  with assms(1) show ?thesis by (cases a) (simp add: then_do_def)
next
  case (Inr b)
  with assms show ?thesis by (cases b) (simp add: then_do_def)
qed

lemma extends_PDIDecoder_putb: "extends d d1 \<Longrightarrow> extends d (final (PDIDecoder_putb b dir v d1))"
  by (auto simp: PDIDecoder_putb_def putb_def extends_putf split: option.split)

lemma extends_put_special: "extends d d1 \<Longrightarrow> extends d (final (put_special data dir d1))"
  by (simp add: put_special_def putx_def extends_put Let_def)

lemma extends_checkParity: "extends d (final (checkParity val dir d))"
  unfolding checkParity_def Let_def
  by (auto split: list.split option.split
      intro!: extends_then_do extends_putf extends_PDIDecoder_putb extends_put_special extends_refl)

lemma checkParity_malformed: "length val \<noteq> 9 \<Longrightarrow> final (checkParity val dir d) = d"
  by (simp add: checkParity_def Let_def split: list.split option.split)

lemma extends_state: "extends d d' \<Longrightarrow> state d' = state d"
  by (auto simp: extends_def)

lemma extends_prefix: "extends d d' \<Longrightarrow> take (length (emitted d)) (emitted d') = emitted d"
  by (auto simp: extends_def)

lemma handle_reg_idcode_32:
  assumes "length bits = 32" and "list_all is_bit bits"
    and "samplenums d = Some sn" and "32 \<le> length sn"
  shows "\<exists>d'. handle_reg_idcode cmd bits d = Inr ((), d') \<and> state d' = state d"
  using assms(3,4)
  by (simp add: handle_reg_idcode_def decode_device_id_code_32 [OF assms(1,2)]
      then_do_def putb_def putf_def put_def putx_def) auto

lemma decode_unknown_dr:
  assumes "state d = ''UNKNOWN''" and "is_dr_event ev"
  shows "\<exists>d'. decode s e ev d = Inr ((), d') \<and> state d' = ''UNKNOWN'' \<and> emitted d' = emitted d"
proof (cases ev)
  case (NewState name)
  with assms(2) show ?thesis by (simp add: is_dr_event_def)
next
  case (Shift cmd bits sn)
  with assms(2) have c: "cmd = ''DR TDI'' \<or> cmd = ''DR TDO''" by (simp add: is_dr_event_def)
  then have "cmd \<noteq> ''IR TDI''" "cmd \<noteq> ''NEW STATE''" by auto
  with Shift assms(1) show ?thesis by (simp add: dispatch_unknown)
qed

lemma decode_all_unknown:
  assumes "state d = ''UNKNOWN''" and "list_all (\<lambda>(s, e, ev). is_dr_event ev) drs"
  shows "\<exists>d'. decode_all drs d = Inr ((), d') \<and> state d' = ''UNKNOWN'' \<and> emitted d' = emitted d"
  using assms
proof (induction drs arbitrary: d)
  case Nil
  then show ?case by simp
next
  case (Cons x drs)
  obtain s e ev where x: "x = (s, e, ev)" by (cases x)
  with Cons.prems have "is_dr_event ev" and rest: "list_all (\<lambda>(s, e, ev). is_dr_event ev) drs"
    by simp_all
  from decode_unknown_dr [OF Cons.prems(1) this(1)] obtain d1
    where d1: "decode s e ev d = Inr ((), d1)" "state d1 = ''UNKNOWN''" "emitted d1 = emitted d"
    by blast
  from Cons.IH [OF d1(2) rest] d1 x show ?case by simp
qed

text \<open>
  Claim C6. The claim: every DR event in state BYPASS, host-to-device or device-to-host,
  invokes the BYPASS handler and returns the state to IDLE. A device-to-host event
  (DR TDO) in state BYPASS is dropped by the guard \<^verbatim>\<open>if cmd != 'DR TDI': return\<close>: nothing
  is emitted and the state stays BYPASS.
\<close>

theorem decode_bypass_device_to_host_counterexample:
  "decode 10 20 (Shift ''DR TDO'' ''1'' [(10, 20)]) (selected ''BYPASS'') =
     Inr ((), \<lparr>state = ''BYPASS'', samplenums = Some [(10, 20)], ss = 10, es = 20, emitted = []\<rparr>)"
  by (simp add: selected_def dispatch_bypass)

text \<open>
  Claim C6, amended. A host-to-device DR event (DR TDI) in state BYPASS emits exactly one
  item annotation, BYPASS: followed by the bits as they are, over the whole event, and the
  state becomes IDLE; nothing about the bit string is checked. A device-to-host DR event
  (DR TDO) in state BYPASS emits nothing and leaves the state BYPASS.
\<close>

theorem decode_bypass:
  assumes "state d = ''BYPASS''"
  shows "decode s e (Shift ''DR TDI'' bits sn) d =
           Inr ((), d\<lparr>ss := s, es := e, samplenums := Some (rev sn),
                       emitted := emitted d @ [(s, e, JTAG_ITEM, [''BYPASS: '' @ bits])],
                       state := ''IDLE''\<rparr>)
         \<and> decode s e (Shift ''DR TDO'' bits sn) d =
           Inr ((), d\<lparr>ss := s, es := e, samplenums := Some (rev sn)\<rparr>)"
  using assms by (simp add: dispatch_bypass)

theorem decode_bypass_witness:
  "decode 10 20 (Shift ''DR TDI'' ''1'' [(10, 20)]) (selected ''BYPASS'') =
     Inr ((), \<lparr>state = ''IDLE'', samplenums = Some [(10, 20)], ss = 10, es = 20,
               emitted = [(10, 20, JTAG_ITEM, [''BYPASS: 1''])]\<rparr>)"
proof -
  have h: "state (selected ''BYPASS'') = ''BYPASS''" by (simp add: selected_def)
  from decode_bypass [OF h, of 10 20 "''1''" "[(10, 20)]", THEN conjunct1]
  show ?thesis by (simp add: selected_def)
qed

text \<open>
  Claim C7. When the first four characters of the IR value are none of 0011, 0111 and
  1111, the IR TDI event selects UNKNOWN (and emits the annotation IR: UNKNOWN), and any
  run of DR events that follows is processed without an exception, emits nothing more and
  leaves the selected register UNKNOWN.
\<close>

theorem decode_unknown_register:
  assumes "take 4 v \<notin> {''0011'', ''0111'', ''1111''}"
    and "list_all (\<lambda>(s, e, ev). is_dr_event ev) drs"
  shows "\<exists>d'. decode_all ((s0, e0, Shift ''IR TDI'' v sn0) # drs) d = Inr ((), d')
              \<and> state d' = ''UNKNOWN''
              \<and> emitted d' = emitted d @ [(s0, e0, JTAG_COMMAND, [''IR: UNKNOWN''])]"
proof -
  let ?d1 = "d\<lparr>ss := s0, es := e0, samplenums := Some (rev sn0), state := ''UNKNOWN'',
               emitted := emitted d @ [(s0, e0, JTAG_COMMAND, [''IR: UNKNOWN''])]\<rparr>"
  have ir: "decode s0 e0 (Shift ''IR TDI'' v sn0) d = Inr ((), ?d1)"
    by (simp add: dispatch_ir_unknown [OF assms(1)])
  have "state ?d1 = ''UNKNOWN''" by simp
  from decode_all_unknown [OF this assms(2)] ir show ?thesis by simp
qed

theorem decode_unknown_register_witness:
  "\<exists>d'. decode_all [(0, 4, Shift ''IR TDI'' ''0101'' [(0, 1), (1, 2), (2, 3), (3, 4)]),
                     (5, 6, Shift ''DR TDI'' ''1'' [(5, 6)]),
                     (5, 6, Shift ''DR TDO'' ''0'' [(5, 6)])] (selected ''IDLE'') = Inr ((), d')
        \<and> state d' = ''UNKNOWN''
        \<and> emitted d' = [(0, 4, JTAG_COMMAND, [''IR: UNKNOWN''])]"
proof -
  have h1: "take 4 ''0101'' \<notin> {''0011'', ''0111'', ''1111''}" by simp
  have h2: "list_all (\<lambda>(s, e, ev). is_dr_event ev)
              [(5, 6, Shift ''DR TDI'' ''1'' [(5, 6)]), (5, 6, Shift ''DR TDO'' ''0'' [(5, 6)])]"
    by (simp add: is_dr_event_def)
  from decode_unknown_register [OF h1 h2, of 0 4 "[(0, 1), (1, 2), (2, 3), (3, 4)]" "selected ''IDLE''"]
  show ?thesis by (simp add: selected_def)
qed

text \<open>
  Claim C8. The claim: a DR data event in state BYPASS always sets the state back to IDLE.
  After a device-to-host DR event in state BYPASS the state is still BYPASS.
\<close>

theorem decode_bypass_state_counterexample:
  "state (final (decode 0 8 (Shift ''DR TDO'' ''0'' [(0, 8)]) (selected ''BYPASS''))) = ''BYPASS''
   \<and> ''BYPASS'' \<noteq> ''IDLE''"
  by (simp add: selected_def dispatch_bypass)

text \<open>
  Claim C8, amended. In state BYPASS a host-to-device DR event returns and sets the state
  to IDLE, and a device-to-host DR event leaves it BYPASS. In state IDCODE a device-to-host
  DR event whose handling returns sets the state to IDLE, and it returns for every
  32-character bit string that comes with at least 32 sample ranges. In state PDICOM
  every DR event, of either direction and whatever its frame, leaves the state PDICOM.
\<close>

theorem decode_state_after_data_register:
  "(state d = ''BYPASS'' \<longrightarrow>
      raised (decode s e (Shift ''DR TDI'' bits sn) d) = None
      \<and> state (final (decode s e (Shift ''DR TDI'' bits sn) d)) = ''IDLE''
      \<and> state (final (decode s e (Shift ''DR TDO'' bits sn) d)) = ''BYPASS'')
   \<and> (state d = ''IDCODE'' \<and> raised (decode s e (Shift ''DR TDO'' bits sn) d) = None \<longrightarrow>
      state (final (decode s e (Shift ''DR TDO'' bits sn) d)) = ''IDLE'')
   \<and> (state d = ''IDCODE'' \<and> length bits = 32 \<and> list_all is_bit bits \<and> 32 \<le> length sn \<longrightarrow>
      raised (decode s e (Shift ''DR TDO'' bits sn) d) = None)
   \<and> (state d = ''PDICOM'' \<and> (cmd = ''DR TDI'' \<or> cmd = ''DR TDO'') \<longrightarrow>
      state (final (decode s e (Shift cmd bits sn) d)) = ''PDICOM'')"
proof (intro conjI impI)
  assume "state d = ''BYPASS''"
  then show "raised (decode s e (Shift ''DR TDI'' bits sn) d) = None"
    and "state (final (decode s e (Shift ''DR TDI'' bits sn) d)) = ''IDLE''"
    and "state (final (decode s e (Shift ''DR TDO'' bits sn) d)) = ''BYPASS''"
    by (simp_all add: dispatch_bypass)
next
  let ?d = "d\<lparr>ss := s, es := e, samplenums := Some (rev sn)\<rparr>"
  assume a: "state d = ''IDCODE'' \<and> raised (decode s e (Shift ''DR TDO'' bits sn) d) = None"
  then have st: "state ?d = ''IDCODE''" by simp
  show "state (final (decode s e (Shift ''DR TDO'' bits sn) d)) = ''IDLE''"
  proof (cases "handle_reg_idcode ''DR TDO'' bits ?d")
    case (Inl x)
    with a st show ?thesis by (cases x) (simp add: dispatch_idcode then_do_def)
  next
    case (Inr y)
    with st show ?thesis by (cases y) (simp add: dispatch_idcode then_do_def)
  qed
next
  let ?d = "d\<lparr>ss := s, es := e, samplenums := Some (rev sn)\<rparr>"
  assume a: "state d = ''IDCODE'' \<and> length bits = 32 \<and> list_all is_bit bits \<and> 32 \<le> length sn"
  then have st: "state ?d = ''IDCODE''" and sn: "samplenums ?d = Some (rev sn)"
    and l: "32 \<le> length (rev sn)" by simp_all
  from a have "length bits = 32" "list_all is_bit bits" by simp_all
  from handle_reg_idcode_32 [OF this sn l, of "''DR TDO''"] st
  show "raised (decode s e (Shift ''DR TDO'' bits sn) d) = None"
    by (auto simp: dispatch_idcode then_do_def)
next
  let ?d = "d\<lparr>ss := s, es := e, samplenums := Some (rev sn)\<rparr>"
  assume a: "state d = ''PDICOM'' \<and> (cmd = ''DR TDI'' \<or> cmd = ''DR TDO'')"
  then have st: "state ?d = ''PDICOM''" and c: "cmd \<noteq> ''IR TDI''" "cmd \<noteq> ''NEW STATE''" by auto
  have keep: "state (final (then_do (checkParity bits dir d0) (\<lambda>_ d. Inr ((), d)))) = state d0"
    for dir d0
  proof -
    have "extends d0 (final (then_do (checkParity bits dir d0) (\<lambda>_ d. Inr ((), d))))"
      by (intro extends_then_do extends_checkParity) simp
    then show ?thesis by (rule extends_state)
  qed
  from a st c show "state (final (decode s e (Shift cmd bits sn) d)) = ''PDICOM''"
    by (auto simp: dispatch_pdicom handleInput_def handleOutput_def keep)
qed

theorem decode_state_after_data_register_witness:
  "state (final (decode 0 8 (Shift ''DR TDI'' ''0'' [(0, 8)]) (selected ''BYPASS''))) = ''IDLE''
   \<and> state (final (decode 0 8 (Shift ''DR TDO'' ''100000000'' []) (selected ''PDICOM''))) = ''PDICOM''"
proof -
  have b: "state (selected ''BYPASS'') = ''BYPASS''" by (simp add: selected_def)
  have p: "state (selected ''PDICOM'') = ''PDICOM'' \<and> (''DR TDO'' = ''DR TDI'' \<or> ''DR TDO'' = ''DR TDO'')"
    by (simp add: selected_def)
  from decode_state_after_data_register [of "selected ''BYPASS''" 0 8 "''0''" "[(0, 8)]",
      THEN conjunct1, rule_format, OF b]
    decode_state_after_data_register [of "selected ''PDICOM''" 0 8 "''100000000''" "[]" "''DR TDO''",
      THEN conjunct2, THEN conjunct2, THEN conjunct2, rule_format, OF p]
  show ?thesis by simp
qed

text \<open>
  Claim C9. A host-to-device DR event (DR TDI) in state IDCODE returns without calling a
  handler: the decoder only records the event bounds and sample ranges, as for every
  packet; no annotation is emitted and the state stays IDCODE.
\<close>

theorem decode_idcode_host_to_device:
  assumes "state d = ''IDCODE''"
  shows "decode s e (Shift ''DR TDI'' bits sn) d =
           Inr ((), d\<lparr>ss := s, es := e, samplenums := Some (rev sn)\<rparr>)"
  using assms by (simp add: dispatch_idcode)

theorem decode_idcode_host_to_device_witness:
  "decode 0 32 (Shift ''DR TDI'' ''1'' [(0, 32)]) (selected ''IDCODE'') =
     Inr ((), \<lparr>state = ''IDCODE'', samplenums = Some [(0, 32)], ss = 0, es = 32, emitted = []\<rparr>)"
proof -
  have h: "state (selected ''IDCODE'') = ''IDCODE''" by (simp add: selected_def)
  from decode_idcode_host_to_device [OF h, of 0 32 "''1''" "[(0, 32)]"]
  show ?thesis by (simp add: selected_def)
qed

text \<open>
  Claim C10. For a device-to-host DR event (DR TDO) in state PDICOM the first annotation
  emitted is the command annotation PDICOM over the whole event, before the frame is
  looked at; when the frame is malformed (length other than 9) it is the only one, whether
  the frame decoder returns or raises, and the frame decoder itself emits nothing.
\<close>

theorem decode_pdicom_device_to_host:
  assumes "state d = ''PDICOM''"
  shows "take (Suc (length (emitted d))) (emitted (final (decode s e (Shift ''DR TDO'' val sn) d))) =
           emitted d @ [(s, e, JTAG_COMMAND, [''PDICOM''])]
         \<and> (length val \<noteq> 9 \<longrightarrow>
              emitted (final (decode s e (Shift ''DR TDO'' val sn) d)) =
                emitted d @ [(s, e, JTAG_COMMAND, [''PDICOM''])]
              \<and> emitted (final (checkParity val DATA_OUT d)) = emitted d)"
proof -
  let ?d1 = "d\<lparr>ss := s, es := e, samplenums := Some (rev sn),
               emitted := emitted d @ [(s, e, JTAG_COMMAND, [''PDICOM''])]\<rparr>"
  let ?r = "then_do (checkParity val DATA_OUT ?d1) (\<lambda>_ d. Inr ((), d))"
  have dec: "decode s e (Shift ''DR TDO'' val sn) d = ?r"
    using assms by (simp add: dispatch_pdicom handleOutput_def)
  have "extends ?d1 (final ?r)"
    by (intro extends_then_do extends_checkParity) simp
  from extends_prefix [OF this]
  have "take (length (emitted d @ [(s, e, JTAG_COMMAND, [''PDICOM''])])) (emitted (final ?r)) =
          emitted d @ [(s, e, JTAG_COMMAND, [''PDICOM''])]" by simp
  then have pre: "take (Suc (length (emitted d))) (emitted (final ?r)) =
          emitted d @ [(s, e, JTAG_COMMAND, [''PDICOM''])]" by simp
  have mal: "emitted (final ?r) = emitted d @ [(s, e, JTAG_COMMAND, [''PDICOM''])]"
    if "length val \<noteq> 9"
  proof (cases "checkParity val DATA_OUT ?d1")
    case (Inl x)
    with checkParity_malformed [OF that, of DATA_OUT ?d1] show ?thesis
      by (cases x) (simp add: then_do_def)
  next
    case (Inr y)
    with checkParity_malformed [OF that, of DATA_OUT ?d1] show ?thesis
      by (cases y) (simp add: then_do_def)
  qed
  from pre mal checkParity_malformed [of val DATA_OUT d] show ?thesis
    unfolding dec by simp
qed

theorem decode_pdicom_device_to_host_witness:
  "emitted (final (decode 3 7 (Shift ''DR TDO'' ''1010'' [(3, 4), (4, 5), (5, 6), (6, 7)])
     (selected ''PDICOM''))) = [(3, 7, JTAG_COMMAND, [''PDICOM''])]
   \<and> emitted (final (decode 3 7 (Shift ''DR TDO'' [] []) (selected ''PDICOM''))) =
       [(3, 7, JTAG_COMMAND, [''PDICOM''])]"
proof -
  have h: "state (selected ''PDICOM'') = ''PDICOM''" by (simp add: selected_def)
  have l: "length ''1010'' \<noteq> 9" "length ('''' :: string) \<noteq> 9" by simp_all
  from decode_pdicom_device_to_host [OF h, THEN conjunct2, rule_format, OF l(1), THEN conjunct1,
      of 3 7 "[(3, 4), (4, 5), (5, 6), (6, 7)]"]
    decode_pdicom_device_to_host [OF h, THEN conjunct2, rule_format, OF l(2), THEN conjunct1,
      of 3 7 "[]"]
  show ?thesis by (simp add: selected_def)
qed

end
